theory Spec2Isabelle
  imports Main
begin

section \<open>Strings\<close>

text \<open>
  A JavaScript string is a sequence of UTF-16 code units, and the regular expressions of
  \<^verbatim>\<open>createSafeFileName\<close> (written without the \<^verbatim>\<open>u\<close> flag) work on
  code units. A string is therefore a list of code units, each a natural number.
  \<open>ascii\<close> writes a string of Basic Latin characters as such a list.
\<close>

type_synonym code_unit = nat
type_synonym js_string = "code_unit list"

definition ascii :: "string \<Rightarrow> js_string" where
  "ascii s = map of_char s"

definition isDigit :: "code_unit \<Rightarrow> bool" where
  "isDigit c = (48 \<le> c \<and> c \<le> 57)"

definition isLowerLetter :: "code_unit \<Rightarrow> bool" where
  "isLowerLetter c = (97 \<le> c \<and> c \<le> 122)"

definition isUpperLetter :: "code_unit \<Rightarrow> bool" where
  "isUpperLetter c = (65 \<le> c \<and> c \<le> 90)"

text \<open>The separator character \<^verbatim>\<open>'_'\<close>.\<close>

definition underscore :: code_unit where
  "underscore = 95"

subsection \<open>\<^verbatim>\<open>String.prototype.toLowerCase\<close>\<close>

text \<open>
  \<^verbatim>\<open>toLowerCase\<close> maps the letters \<^verbatim>\<open>A\<close> to \<^verbatim>\<open>Z\<close> to
  \<^verbatim>\<open>a\<close> to \<^verbatim>\<open>z\<close> and leaves every other Basic Latin code unit as it is.
  What it does to a code unit from 128 on is decided by the Unicode case-mapping tables of
  the JavaScript engine, which are no part of this program: a unit may stay, change, or
  turn into several units, depending on its neighbours. The tables are the parameter
  \<open>uni\<close>: \<open>uni prev c rest\<close> is what the unit \<open>c\<close>, standing between
  \<open>prev\<close> and \<open>rest\<close>, contributes to the lower-case string.
\<close>

type_synonym case_tables = "js_string \<Rightarrow> code_unit \<Rightarrow> js_string \<Rightarrow> js_string"

definition lowerBasicLatin :: "code_unit \<Rightarrow> code_unit" where
  "lowerBasicLatin c = (if isUpperLetter c then c + 32 else c)"

fun lowerFrom :: "case_tables \<Rightarrow> js_string \<Rightarrow> js_string \<Rightarrow> js_string" where
  "lowerFrom uni prev [] = []"
| "lowerFrom uni prev (c # rest) =
     (if c < 128 then [lowerBasicLatin c] else uni prev c rest)
       @ lowerFrom uni (prev @ [c]) rest"

definition toLowerCase :: "case_tables \<Rightarrow> js_string \<Rightarrow> js_string" where
  "toLowerCase uni s = lowerFrom uni [] s"

text \<open>A case table that leaves every code unit from 128 on as it is.\<close>

definition keepUnit :: case_tables where
  "keepUnit prev c rest = [c]"

subsection \<open>\<^verbatim>\<open>replace(/[^a-z0-9]/gi, '_')\<close>\<close>

text \<open>
  With the \<^verbatim>\<open>i\<close> flag the class \<^verbatim>\<open>[a-z0-9]\<close> holds the letters of both
  cases and the digits, and no code unit from 128 on (a unit from 128 on is never
  canonicalised to a Basic Latin one). Every code unit outside the class is replaced.
\<close>

definition inClass :: "code_unit \<Rightarrow> bool" where
  "inClass c = (isLowerLetter c \<or> isUpperLetter c \<or> isDigit c)"

definition replaceOutsideClass :: "js_string \<Rightarrow> js_string" where
  "replaceOutsideClass s = map (\<lambda>c. if inClass c then c else underscore) s"

subsection \<open>\<^verbatim>\<open>replace(/_+/g, '_')\<close>\<close>

text \<open>Every maximal run of underscores, found from the left, becomes one underscore.\<close>

function collapseUnderscores :: "js_string \<Rightarrow> js_string" where
  "collapseUnderscores [] = []"
| "collapseUnderscores (c # cs) =
     (if c = underscore
      then underscore # collapseUnderscores (dropWhile (\<lambda>d. d = underscore) cs)
      else c # collapseUnderscores cs)"
  by pat_completeness auto
termination
  by (relation "measure length") (auto simp: le_imp_less_Suc length_dropWhile_le)

subsection \<open>\<^verbatim>\<open>String.prototype.trim\<close>\<close>

text \<open>
  \<^verbatim>\<open>trim\<close> removes white space and line terminators from both ends: the code
  units of the ECMAScript productions WhiteSpace and LineTerminator.
\<close>

definition isWhiteSpace :: "code_unit \<Rightarrow> bool" where
  "isWhiteSpace c =
     (c = 9 \<or> c = 10 \<or> c = 11 \<or> c = 12 \<or> c = 13 \<or> c = 32 \<or> c = 160 \<or> c = 5760
      \<or> (8192 \<le> c \<and> c \<le> 8202) \<or> c = 8232 \<or> c = 8233 \<or> c = 8239 \<or> c = 8287
      \<or> c = 12288 \<or> c = 65279)"

definition trim :: "js_string \<Rightarrow> js_string" where
  "trim s = rev (dropWhile isWhiteSpace (rev (dropWhile isWhiteSpace s)))"

subsection \<open>Numbers in template literals\<close>

text \<open>
  \<^verbatim>\<open>Date.now()\<close> is the number of milliseconds elapsed since the epoch, a natural
  number far below \<open>10\<^sup>2\<^sup>1\<close>; a template literal writes such a number in decimal
  digits.
\<close>

fun decimal :: "nat \<Rightarrow> js_string" where
  "decimal n = (if n < 10 then [48 + n] else decimal (n div 10) @ [48 + n mod 10])"

declare decimal.simps [simp del]

section \<open>Safe naming\<close>

text \<open>
  \<^verbatim>\<open>createSafeFileName\<close>, lines 160 to 168. \<open>safeTitle\<close> is the local constant
  of that name, the part of the file name before the time stamp; \<open>now\<close> is the value
  \<^verbatim>\<open>Date.now()\<close> returns in the call.
\<close>

definition safeTitle :: "case_tables \<Rightarrow> js_string \<Rightarrow> js_string" where
  "safeTitle uni title =
     trim (collapseUnderscores (replaceOutsideClass (toLowerCase uni title)))"

definition createSafeFileName :: "case_tables \<Rightarrow> nat \<Rightarrow> js_string \<Rightarrow> js_string" where
  "createSafeFileName uni now title =
     safeTitle uni title @ [underscore] @ decimal now @ ascii ''.pdf''"

text \<open>
  Two ways of saying that two lower-case titles differ only in characters outside the
  class. \<open>alphanumericContent\<close> is what is left of the lower-case title once every
  code unit outside the class is dropped. \<open>sameUpToSeparators\<close> relates two strings
  that have the same code units of the class in the same places between the same runs
  of other code units: a unit outside the class may be exchanged for another one, and a
  run of them may grow or shrink, but no run appears or disappears.
\<close>

definition alphanumericContent :: "case_tables \<Rightarrow> js_string \<Rightarrow> js_string" where
  "alphanumericContent uni title = filter inClass (toLowerCase uni title)"

inductive sameUpToSeparators :: "js_string \<Rightarrow> js_string \<Rightarrow> bool" where
  Nil: "sameUpToSeparators [] []"
| Keep: "inClass c \<Longrightarrow> sameUpToSeparators xs ys \<Longrightarrow> sameUpToSeparators (c # xs) (c # ys)"
| Swap: "\<not> inClass a \<Longrightarrow> \<not> inClass b \<Longrightarrow> sameUpToSeparators xs ys
     \<Longrightarrow> sameUpToSeparators (a # xs) (b # ys)"
| RepeatL: "\<not> inClass a \<Longrightarrow> \<not> inClass a' \<Longrightarrow> sameUpToSeparators (a # xs) ys
     \<Longrightarrow> sameUpToSeparators (a' # a # xs) ys"
| RepeatR: "\<not> inClass b \<Longrightarrow> \<not> inClass b' \<Longrightarrow> sameUpToSeparators xs (b # ys)
     \<Longrightarrow> sameUpToSeparators xs (b' # b # ys)"

code_pred sameUpToSeparators .

section \<open>Catalog records, errors and promises\<close>

text \<open>The interface \<^verbatim>\<open>Catalog\<close>; the optional \<^verbatim>\<open>localPath\<close> is an option.\<close>

record catalog =
  title :: js_string
  link :: js_string
  validFrom :: js_string
  validUntil :: js_string
  localPath :: "js_string option"

text \<open>
  The errors the service throws or passes on: its own \<^verbatim>\<open>Browser not initialized\<close>
  and \<^verbatim>\<open>Failed to download <title>: <status>\<close>, and those it receives from the
  browser (navigation failure, timeout, any other), from \<^verbatim>\<open>fs.mkdirSync\<close>,
  \<^verbatim>\<open>https.get\<close>, the write stream, the request and \<^verbatim>\<open>fs.writeFileSync\<close>.
\<close>

datatype error =
    BrowserNotInitialized
  | NavigationError
  | RenderTimeout
  | PageError
  | MkdirError
  | InvalidUrl
  | DownloadFailed js_string nat
  | FileError
  | RequestError
  | WriteError

text \<open>
  What becomes of a promise: it is fulfilled with a value, rejected with an error, or it
  never settles (the code sets no time limit on a download).
\<close>

datatype 'a promise = Fulfilled 'a | Rejected error | Pending

section \<open>The world around the service\<close>

text \<open>
  The class fields: the browser handle, \<^verbatim>\<open>null\<close> until \<^verbatim>\<open>initBrowser\<close> has
  finished, and the download directory.
\<close>

datatype browser = Browser

record service =
  browser :: "browser option"
  downloadPath :: js_string

text \<open>
  What the service changes outside itself: the pages it has opened and closed in the
  browser, the catalogs directory and the files in it, the requests it has sent, and the file
  \<^verbatim>\<open>catalogs_metadata.json\<close> (absent, or holding the record list last written)
  with the number of times it was written.
\<close>

record world =
  pagesOpened :: nat
  pagesClosed :: nat
  catalogsDir :: bool
  files :: "js_string set"
  requests :: "js_string list"
  metadata :: "catalog list option"
  metadataWrites :: nat

text \<open>
  One entry element \<^verbatim>\<open>.card-catalogue\<close> of the rendered page, as the queries of
  the code see it: the \<^verbatim>\<open>href\<close> values of its anchors in document order, the text of
  its first \<^verbatim>\<open>h3 a\<close>, and the \<^verbatim>\<open>datetime\<close> attributes of the first
  \<^verbatim>\<open>time:first-child\<close> and \<^verbatim>\<open>time:last-child\<close> in its first paragraph
  (\<open>None\<close> where the element or the attribute is missing).
\<close>

record card =
  hrefs :: "js_string list"
  headingText :: "js_string option"
  firstTime :: "js_string option"
  lastTime :: "js_string option"

text \<open>
  What the browser answers in one call of \<^verbatim>\<open>parseCatalogs\<close>: the error with which
  \<^verbatim>\<open>newPage\<close>, \<^verbatim>\<open>goto\<close> and \<^verbatim>\<open>waitForSelector\<close> reject, if they do, and
  the entry elements \<^verbatim>\<open>evaluate\<close> finds. \<^verbatim>\<open>page.close()\<close> is taken to succeed.
\<close>

record page_env =
  newPage :: "error option"
  goto :: "error option"
  waitForSelector :: "error option"
  evaluate :: "error + card list"

text \<open>
  What happens to one download. \<^verbatim>\<open>https.get\<close> throws at once (the link is no
  absolute https URL), or the request fails, or a response arrives with a status code,
  or nothing ever arrives. After a response with status 200 the body is piped into the
  file: the stream finishes, or it fails, or it stalls.
\<close>

datatype transfer = Finishes | FileFails | Stalls

datatype reply = Response nat transfer | RequestFails | UrlRejected | NoReply

record fetch_env =
  clock :: nat
  mkdirFails :: bool
  reply :: reply

text \<open>
  The surroundings of one run: the case tables of the engine, the browser's answers, the
  fate of the download of the record at each position, and whether
  \<^verbatim>\<open>fs.writeFileSync\<close> throws.
\<close>

record env =
  tables :: case_tables
  page :: page_env
  fetchEnv :: "nat \<Rightarrow> fetch_env"
  writeFails :: bool

section \<open>Record extraction\<close>

text \<open>
  The callback of \<^verbatim>\<open>page.evaluate\<close>, lines 72 to 89. \<open>hasSubstring s pat\<close> is the match
  of the attribute selector \<^verbatim>\<open>[href*=".pdf"]\<close>: \<open>pat\<close> occurs in \<open>s\<close>.
  \<open>orEmpty\<close> is \<^verbatim>\<open>|| ''\<close> on a string that may be missing.
\<close>

fun hasSubstring :: "js_string \<Rightarrow> js_string \<Rightarrow> bool" where
  "hasSubstring [] pat = (pat = [])"
| "hasSubstring (c # cs) pat = (take (length pat) (c # cs) = pat \<or> hasSubstring cs pat)"

definition orEmpty :: "js_string option \<Rightarrow> js_string" where
  "orEmpty v = (case v of None \<Rightarrow> [] | Some s \<Rightarrow> s)"

definition catalogOf :: "card \<Rightarrow> catalog" where
  "catalogOf item =
     \<lparr>title = orEmpty (map_option trim (headingText item)),
      link = orEmpty (find (\<lambda>h. hasSubstring h (ascii ''.pdf'')) (hrefs item)),
      validFrom = orEmpty (firstTime item),
      validUntil = orEmpty (lastTime item),
      localPath = None\<rparr>"

definition evaluateCatalogs :: "card list \<Rightarrow> catalog list" where
  "evaluateCatalogs catalogItems = filter (\<lambda>c. link c \<noteq> []) (map catalogOf catalogItems)"

text \<open>
  Three ways of speaking about the entries of a page. \<open>hasPdfAnchor\<close> is the test
  of the code's selector: some anchor of the entry has \<^verbatim>\<open>.pdf\<close> somewhere in its
  \<^verbatim>\<open>href\<close>. \<open>hasResolvableDocumentLink\<close> follows the words of the specification:
  the entry has a link whose target path ends in the document extension, the target path
  being the link up to its query or fragment (the first \<^verbatim>\<open>?\<close> or \<^verbatim>\<open>#\<close>).
  \<open>describes item c\<close> says what the record of an entry is: its link is the
  \<^verbatim>\<open>href\<close> of the first anchor, in document order, that has \<^verbatim>\<open>.pdf\<close> in it; its
  title is the heading text without surrounding white space, or empty; its dates are the
  two \<^verbatim>\<open>datetime\<close> values, or empty; it has no local path.
\<close>

definition hasPdfAnchor :: "card \<Rightarrow> bool" where
  "hasPdfAnchor item = list_ex (\<lambda>h. hasSubstring h (ascii ''.pdf'')) (hrefs item)"

definition targetPath :: "js_string \<Rightarrow> js_string" where
  "targetPath h = takeWhile (\<lambda>c. c \<noteq> 63 \<and> c \<noteq> 35) h"

definition endsWith :: "js_string \<Rightarrow> js_string \<Rightarrow> bool" where
  "endsWith s suf = (length suf \<le> length s \<and> drop (length s - length suf) s = suf)"

definition hasResolvableDocumentLink :: "card \<Rightarrow> bool" where
  "hasResolvableDocumentLink item =
     list_ex (\<lambda>h. endsWith (targetPath h) (ascii ''.pdf'')) (hrefs item)"

definition firstPdfHref :: "card \<Rightarrow> js_string \<Rightarrow> bool" where
  "firstPdfHref item h =
     (\<exists>i<length (hrefs item).
        hrefs item ! i = h \<and> hasSubstring h (ascii ''.pdf'')
        \<and> (\<forall>j<i. \<not> hasSubstring (hrefs item ! j) (ascii ''.pdf'')))"

definition describes :: "card \<Rightarrow> catalog \<Rightarrow> bool" where
  "describes item c =
     (firstPdfHref item (link c)
      \<and> title c = (case headingText item of None \<Rightarrow> [] | Some t \<Rightarrow> trim t)
      \<and> validFrom c = (case firstTime item of None \<Rightarrow> [] | Some d \<Rightarrow> d)
      \<and> validUntil c = (case lastTime item of None \<Rightarrow> [] | Some d \<Rightarrow> d)
      \<and> localPath c = None)"

section \<open>Downloading one catalog\<close>

text \<open>
  \<^verbatim>\<open>downloadCatalog\<close>, lines 111 to 158. The result is the fate of the promise, the
  record (with \<^verbatim>\<open>localPath\<close> set by the \<^verbatim>\<open>finish\<close> handler) and the world once
  every handler that will ever run has run. \<^verbatim>\<open>path.join\<close> puts a slash between
  its arguments (the download directory is a normalised POSIX path, and the file name has
  no slash). \<^verbatim>\<open>fs.createWriteStream\<close> is taken to open the file, which creates it,
  empty; \<^verbatim>\<open>fs.unlink\<close> removes it.
\<close>

definition downloadCatalog ::
  "service \<Rightarrow> case_tables \<Rightarrow> fetch_env \<Rightarrow> catalog \<Rightarrow> world \<Rightarrow> unit promise \<times> catalog \<times> world"
where
  "downloadCatalog svc uni e c w =
     (if link c = [] then (Fulfilled (), c, w)
      else
        let fileName = createSafeFileName uni (clock e) (title c);
            filePath = downloadPath svc @ ascii ''/catalogs/'' @ fileName
        in
          if \<not> catalogsDir w \<and> mkdirFails e then (Rejected MkdirError, c, w)
          else
            let w1 = w\<lparr>catalogsDir := True, files := insert filePath (files w)\<rparr>;
                w2 = w1\<lparr>requests := requests w1 @ [link c]\<rparr>
            in
              case reply e of
                UrlRejected \<Rightarrow> (Rejected InvalidUrl, c, w1)
              | Response statusCode tr \<Rightarrow>
                  if statusCode \<noteq> 200
                  then (Rejected (DownloadFailed (title c) statusCode), c, w2)
                  else
                    (case tr of
                       Finishes \<Rightarrow> (Fulfilled (), c\<lparr>localPath := Some filePath\<rparr>, w2)
                     | FileFails \<Rightarrow>
                         (Rejected FileError, c, w2\<lparr>files := files w2 - {filePath}\<rparr>)
                     | Stalls \<Rightarrow> (Pending, c, w2))
              | RequestFails \<Rightarrow> (Rejected RequestError, c, w2\<lparr>files := files w2 - {filePath}\<rparr>)
              | NoReply \<Rightarrow> (Pending, c, w2))"

section \<open>Downloading all catalogs and writing the snapshot\<close>

text \<open>
  \<^verbatim>\<open>catalogs.map(catalog => this.downloadCatalog(catalog))\<close>: one call for each record,
  in list order; the record at position \<open>i\<close> meets the fate \<open>fetchEnv env i\<close>.
\<close>

fun downloadEach ::
  "service \<Rightarrow> env \<Rightarrow> nat \<Rightarrow> catalog list \<Rightarrow> world \<Rightarrow> unit promise list \<times> catalog list \<times> world"
where
  "downloadEach svc env i [] w = ([], [], w)"
| "downloadEach svc env i (c # cs) w =
     (case downloadCatalog svc (tables env) (fetchEnv env i) c w of
        (p, c', w1) \<Rightarrow>
          (case downloadEach svc env (Suc i) cs w1 of
             (ps, cs', w2) \<Rightarrow> (p # ps, c' # cs', w2)))"

text \<open>
  \<^verbatim>\<open>Promise.all\<close>: rejected as soon as one promise is rejected, fulfilled when all
  are, and otherwise pending for ever. Which of several rejections comes first in time
  is not modelled: the first in list order is reported.
\<close>

fun promiseAll :: "unit promise list \<Rightarrow> unit promise" where
  "promiseAll [] = Fulfilled ()"
| "promiseAll (Fulfilled v # ps) = promiseAll ps"
| "promiseAll (Rejected e # ps) = Rejected e"
| "promiseAll (Pending # ps) = (case promiseAll ps of Rejected e \<Rightarrow> Rejected e | _ \<Rightarrow> Pending)"

text \<open>
  \<^verbatim>\<open>processCatalogs\<close>, lines 98 to 109. \<open>downloadPromises\<close> is the constant of that
  name. The snapshot is the record list itself, as \<^verbatim>\<open>JSON.stringify\<close> writes it. A
  \<^verbatim>\<open>writeFileSync\<close> that throws leaves the file as it was. The world returned is
  the one in which all downloads have come to rest, also when \<^verbatim>\<open>Promise.all\<close> has
  been rejected before that.
\<close>

definition downloadPromises :: "service \<Rightarrow> env \<Rightarrow> catalog list \<Rightarrow> world \<Rightarrow> unit promise list" where
  "downloadPromises svc env catalogs w = fst (downloadEach svc env 0 catalogs w)"

definition processCatalogs ::
  "service \<Rightarrow> env \<Rightarrow> catalog list \<Rightarrow> world \<Rightarrow> unit promise \<times> catalog list \<times> world"
where
  "processCatalogs svc env catalogs w =
     (case downloadEach svc env 0 catalogs w of
        (ps, catalogs', w1) \<Rightarrow>
          (case promiseAll ps of
             Rejected e \<Rightarrow> (Rejected e, catalogs', w1)
           | Pending \<Rightarrow> (Pending, catalogs', w1)
           | Fulfilled v \<Rightarrow>
               if writeFails env then (Rejected WriteError, catalogs', w1)
               else (Fulfilled (), catalogs',
                     w1\<lparr>metadata := Some catalogs', metadataWrites := Suc (metadataWrites w1)\<rparr>)))"

section \<open>The harvest run\<close>

text \<open>\<^verbatim>\<open>parseCatalogs\<close>, lines 59 to 96.\<close>

definition parseCatalogs :: "service \<Rightarrow> env \<Rightarrow> world \<Rightarrow> catalog list promise \<times> world" where
  "parseCatalogs svc env w =
     (case browser svc of
        None \<Rightarrow> (Rejected BrowserNotInitialized, w)
      | Some b \<Rightarrow>
          (case newPage (page env) of
             Some e \<Rightarrow> (Rejected e, w)
           | None \<Rightarrow>
               let w1 = w\<lparr>pagesOpened := Suc (pagesOpened w)\<rparr> in
               (case goto (page env) of
                  Some e \<Rightarrow> (Rejected e, w1)
                | None \<Rightarrow>
                    (case waitForSelector (page env) of
                       Some e \<Rightarrow> (Rejected e, w1)
                     | None \<Rightarrow>
                         (case evaluate (page env) of
                            Inl e \<Rightarrow> (Rejected e, w1)
                          | Inr catalogItems \<Rightarrow>
                              let catalogs = evaluateCatalogs catalogItems;
                                  w2 = w1\<lparr>pagesClosed := Suc (pagesClosed w1)\<rparr>
                              in
                                (case processCatalogs svc env catalogs w2 of
                                   (Fulfilled v, catalogs', w3) \<Rightarrow> (Fulfilled catalogs', w3)
                                 | (Rejected e, catalogs', w3) \<Rightarrow> (Rejected e, w3)
                                 | (Pending, catalogs', w3) \<Rightarrow> (Pending, w3)))))))"

section \<open>Counting the downloads that are refused\<close>

text \<open>
  A download is refused when a response arrives whose status is not 200; it succeeds when
  the response has status 200 and the stream finishes. \<open>failedCount env m\<close> is the
  number of refused downloads among the first \<open>m\<close> records.
\<close>

fun nonOk :: "reply \<Rightarrow> bool" where
  "nonOk (Response statusCode tr) = (statusCode \<noteq> 200)"
| "nonOk RequestFails = False"
| "nonOk UrlRejected = False"
| "nonOk NoReply = False"

definition succeeds :: "reply \<Rightarrow> bool" where
  "succeeds r = (r = Response 200 Finishes)"

definition failedCount :: "env \<Rightarrow> nat \<Rightarrow> nat" where
  "failedCount env m = length (filter (\<lambda>i. nonOk (reply (fetchEnv env i))) [0..<m])"

text \<open>\<open>annotated c' c\<close>: the record \<open>c'\<close> is \<open>c\<close> with \<^verbatim>\<open>localPath\<close> set.\<close>

definition annotated :: "catalog \<Rightarrow> catalog \<Rightarrow> bool" where
  "annotated c' c = (localPath c' \<noteq> None \<and> c' = c\<lparr>localPath := localPath c'\<rparr>)"

section \<open>Sample surroundings\<close>

text \<open>
  A service whose browser is running, an untouched world, a page with one entry whose
  anchor points to a PDF, and that entry as a record.
\<close>

definition sampleService :: service where
  "sampleService = \<lparr>browser = Some Browser, downloadPath = ascii ''/srv/data''\<rparr>"

definition freshWorld :: world where
  "freshWorld =
     \<lparr>pagesOpened = 0, pagesClosed = 0, catalogsDir = True, files = {}, requests = [],
      metadata = None, metadataWrites = 0\<rparr>"

definition weeklyCard :: card where
  "weeklyCard =
     \<lparr>hrefs = [ascii ''https://x/a.pdf''], headingText = Some (ascii ''Weekly Deals''),
      firstTime = Some (ascii ''2024-01-01''), lastTime = Some (ascii ''2024-01-07'')\<rparr>"

definition weeklyDeals :: catalog where
  "weeklyDeals =
     \<lparr>title = ascii ''Weekly Deals'', link = ascii ''https://x/a.pdf'',
      validFrom = ascii ''2024-01-01'', validUntil = ascii ''2024-01-07'', localPath = None\<rparr>"

definition fate :: "nat \<Rightarrow> transfer \<Rightarrow> fetch_env" where
  "fate statusCode tr = \<lparr>clock = 1700000000000, mkdirFails = False, reply = Response statusCode tr\<rparr>"

definition answeringPage :: page_env where
  "answeringPage =
     \<lparr>newPage = None, goto = None, waitForSelector = None, evaluate = Inr [weeklyCard]\<rparr>"

definition sampleEnv :: "page_env \<Rightarrow> (nat \<Rightarrow> fetch_env) \<Rightarrow> env" where
  "sampleEnv pg fs = \<lparr>tables = keepUnit, page = pg, fetchEnv = fs, writeFails = False\<rparr>"

text \<open>
  A second record; an entry without a document link; the entry of the second record, and
  an entry whose anchor has \<^verbatim>\<open>.pdf\<close> in the middle; the same fate for every download, and
  the fate in which only the first download succeeds; a world that holds the snapshot
  of an earlier run.
\<close>

definition springSale :: catalog where
  "springSale =
     \<lparr>title = ascii ''Spring Sale!'', link = ascii ''https://x/b.pdf'',
      validFrom = [], validUntil = [], localPath = None\<rparr>"

definition aboutCard :: card where
  "aboutCard =
     \<lparr>hrefs = [ascii ''https://x/about''], headingText = Some (ascii ''About us''),
      firstTime = None, lastTime = None\<rparr>"

definition springCard :: card where
  "springCard =
     \<lparr>hrefs = [ascii ''https://x/about'', ascii ''https://x/b.pdf''],
      headingText = Some (ascii '' Spring Sale! ''), firstTime = None, lastTime = None\<rparr>"

definition previewCard :: card where
  "previewCard =
     \<lparr>hrefs = [ascii ''https://x/e.pdf.html''], headingText = Some (ascii ''Preview''),
      firstTime = None, lastTime = None\<rparr>"

definition always :: "fetch_env \<Rightarrow> nat \<Rightarrow> fetch_env" where
  "always e i = e"

definition onlyFirstSucceeds :: "nat \<Rightarrow> fetch_env" where
  "onlyFirstSucceeds i = (if i = 0 then fate 200 Finishes else fate 404 Finishes)"

definition laterWorld :: world where
  "laterWorld = freshWorld\<lparr>metadata := Some [springSale], metadataWrites := 1\<rparr>"

section \<open>Properties of safe naming\<close>

lemmas naming_defs =
  safeTitle_def toLowerCase_def ascii_def lowerBasicLatin_def isUpperLetter_def
  replaceOutsideClass_def inClass_def isLowerLetter_def isDigit_def underscore_def
  trim_def isWhiteSpace_def

lemma set_replaceOutsideClass:
  "u \<in> set (replaceOutsideClass s) \<Longrightarrow> inClass u \<or> u = underscore"
  by (auto simp: replaceOutsideClass_def)

lemma set_collapseUnderscores: "set (collapseUnderscores s) \<subseteq> set s"
proof (induction s rule: collapseUnderscores.induct)
  case 1
  show ?case by simp
next
  case (2 c cs)
  have "set (dropWhile (\<lambda>d. d = underscore) cs) \<subseteq> set cs"
    by (auto dest: set_dropWhileD)
  with 2 show ?case by auto
qed

lemma class_not_white: "inClass u \<or> u = underscore \<Longrightarrow> \<not> isWhiteSpace u"
  by (auto simp: inClass_def isLowerLetter_def isUpperLetter_def isDigit_def
      underscore_def isWhiteSpace_def)

lemma dropWhile_none: "\<forall>u\<in>set s. \<not> P u \<Longrightarrow> dropWhile P s = s"
  by (cases s) auto

lemma trim_no_white: "\<forall>u\<in>set s. \<not> isWhiteSpace u \<Longrightarrow> trim s = s"
  by (simp add: trim_def dropWhile_none)

text \<open>
  After the two replacements nothing is left for \<^verbatim>\<open>trim\<close> to remove: the string
  holds letters, digits and underscores only, and \<^verbatim>\<open>trim\<close> removes white space.
\<close>

lemma safeTitle_untrimmed:
  "safeTitle uni t = collapseUnderscores (replaceOutsideClass (toLowerCase uni t))"
proof -
  let ?r = "replaceOutsideClass (toLowerCase uni t)"
  have "\<forall>u\<in>set (collapseUnderscores ?r). \<not> isWhiteSpace u"
    using set_collapseUnderscores [of ?r] set_replaceOutsideClass class_not_white by blast
  then show ?thesis
    unfolding safeTitle_def by (rule trim_no_white)
qed

lemma set_decimal: "u \<in> set (decimal n) \<Longrightarrow> isDigit u"
proof (induction n arbitrary: u rule: decimal.induct)
  case (1 n)
  show ?case
  proof (cases "n < 10")
    case True
    with 1 show ?thesis by (simp add: decimal.simps [of n] isDigit_def)
  next
    case False
    with 1 show ?thesis by (auto simp add: decimal.simps [of n] isDigit_def)
  qed
qed

lemma inClass_not_underscore: "inClass c \<Longrightarrow> c \<noteq> underscore"
  by (auto simp: inClass_def isLowerLetter_def isUpperLetter_def isDigit_def underscore_def)

lemma dropWhile_collapse_head:
  "s = [] \<or> hd s \<noteq> underscore \<Longrightarrow>
     dropWhile (\<lambda>d. d = underscore) (collapseUnderscores s) = collapseUnderscores s"
  by (cases s) auto

lemma collapse_dropWhile:
  "collapseUnderscores (dropWhile (\<lambda>d. d = underscore) s)
     = dropWhile (\<lambda>d. d = underscore) (collapseUnderscores s)"
proof (cases s)
  case Nil
  then show ?thesis by simp
next
  case (Cons c cs)
  show ?thesis
  proof (cases "c = underscore")
    case False
    with Cons show ?thesis by simp
  next
    case True
    let ?t = "dropWhile (\<lambda>d. d = underscore) cs"
    have "?t = [] \<or> hd ?t \<noteq> underscore"
      using hd_dropWhile [of "\<lambda>d. d = underscore" cs] by blast
    then have "dropWhile (\<lambda>d. d = underscore) (collapseUnderscores ?t) = collapseUnderscores ?t"
      by (rule dropWhile_collapse_head)
    moreover have "dropWhile (\<lambda>d. d = underscore) s = ?t"
      using Cons True by simp
    moreover have "collapseUnderscores s = underscore # collapseUnderscores ?t"
      using Cons True by simp
    ultimately show ?thesis by simp
  qed
qed

lemma same_collapse:
  "sameUpToSeparators x y \<Longrightarrow>
     collapseUnderscores (replaceOutsideClass x) = collapseUnderscores (replaceOutsideClass y)"
proof (induction rule: sameUpToSeparators.induct)
  case Nil
  show ?case by simp
next
  case (Keep c xs ys)
  then show ?case by (simp add: replaceOutsideClass_def inClass_not_underscore)
next
  case (Swap a b xs ys)
  then show ?case by (simp add: replaceOutsideClass_def collapse_dropWhile)
next
  case (RepeatL a a' xs ys)
  then show ?case by (simp add: replaceOutsideClass_def)
next
  case (RepeatR b b' xs ys)
  then show ?case by (simp add: replaceOutsideClass_def)
qed

text \<open>
  Claim C4. The claim: the prefix is the lower-case title with every character outside
  \<^verbatim>\<open>[a-z0-9]\<close> replaced by the separator, runs of separators collapsed, and leading
  and trailing separators trimmed. The code lower-cases, replaces and collapses, but its
  \<^verbatim>\<open>trim()\<close> removes white space, of which none is left: for the title
  \<^verbatim>\<open>Weekly Deals!\<close> the prefix keeps its trailing separator, and the file name has
  two underscores before the time stamp.
\<close>

theorem createSafeFileName_trailing_separator_kept:
  "safeTitle uni (ascii ''Weekly Deals!'') = ascii ''weekly_deals_''
   \<and> createSafeFileName uni 1700000000000 (ascii ''Weekly Deals!'')
       = ascii ''weekly_deals__1700000000000.pdf''"
  by (simp add: createSafeFileName_def naming_defs decimal.simps)

text \<open>
  Claim C5, as stated: two titles whose alphanumeric content is equal up to case get the
  same prefix. It fails for \<^verbatim>\<open>WeeklyDeals\<close> and \<^verbatim>\<open>Weekly Deals\<close>: the second
  prefix has a separator where the first has none. (Both titles are Basic Latin, so the
  case tables play no part.)
\<close>

theorem safeTitle_alphanumericContent_counterexample:
  "alphanumericContent keepUnit (ascii ''WeeklyDeals'')
     = alphanumericContent keepUnit (ascii ''Weekly Deals'')
   \<and> safeTitle keepUnit (ascii ''WeeklyDeals'') \<noteq> safeTitle keepUnit (ascii ''Weekly Deals'')"
  by (simp add: alphanumericContent_def naming_defs)

text \<open>
  Claim C5, amended: two titles whose lower-case forms have the same letters and digits in
  the same places between the same runs of other characters (which characters stand in a
  run, and how many, is free) get the same prefix.
\<close>

theorem safeTitle_sameUpToSeparators:
  "sameUpToSeparators (toLowerCase uni t1) (toLowerCase uni t2)
     \<Longrightarrow> safeTitle uni t1 = safeTitle uni t2"
  by (simp add: safeTitle_untrimmed same_collapse)

lemma spring_sale_related:
  "sameUpToSeparators (toLowerCase keepUnit (ascii ''Spring  Sale!''))
     (toLowerCase keepUnit (ascii ''spring_sale?''))"
  apply (simp add: naming_defs)
  apply (intro sameUpToSeparators.Keep sameUpToSeparators.Nil
      | (rule sameUpToSeparators.RepeatL, simp add: naming_defs, simp add: naming_defs)
      | (rule sameUpToSeparators.Swap, simp add: naming_defs, simp add: naming_defs)
      | simp add: naming_defs)+
  done

theorem safeTitle_sameUpToSeparators_witness:
  "sameUpToSeparators (toLowerCase keepUnit (ascii ''Spring  Sale!''))
     (toLowerCase keepUnit (ascii ''spring_sale?''))
   \<and> safeTitle keepUnit (ascii ''Spring  Sale!'') = ascii ''spring_sale_''
   \<and> safeTitle keepUnit (ascii ''spring_sale?'') = ascii ''spring_sale_''"
proof -
  have "safeTitle keepUnit (ascii ''Spring  Sale!'') = safeTitle keepUnit (ascii ''spring_sale?'')"
    using spring_sale_related by (rule safeTitle_sameUpToSeparators)
  moreover have "safeTitle keepUnit (ascii ''spring_sale?'') = ascii ''spring_sale_''"
    by (simp add: naming_defs)
  ultimately show ?thesis
    using spring_sale_related by simp
qed

lemma lowerFrom_no_capital:
  assumes "\<forall>prev c rest. 128 \<le> c \<longrightarrow> (\<forall>u\<in>set (uni prev c rest). \<not> isUpperLetter u)"
  shows "\<forall>u\<in>set (lowerFrom uni prev s). \<not> isUpperLetter u"
proof (induction s arbitrary: prev)
  case Nil
  show ?case by simp
next
  case (Cons c s)
  let ?h = "if c < 128 then [lowerBasicLatin c] else uni prev c s"
  have h: "\<forall>u\<in>set ?h. \<not> isUpperLetter u"
  proof (cases "c < 128")
    case True
    then show ?thesis by (simp add: lowerBasicLatin_def isUpperLetter_def)
  next
    case False
    then have "128 \<le> c" by simp
    with assms have "\<forall>u\<in>set (uni prev c s). \<not> isUpperLetter u" by blast
    with False show ?thesis by simp
  qed
  have "set (lowerFrom uni prev (c # s)) = set ?h \<union> set (lowerFrom uni (prev @ [c]) s)"
    by (simp only: lowerFrom.simps set_append)
  with h Cons.IH [of "prev @ [c]"] show ?case
    by blast
qed

text \<open>
  Claim C6. For every title, also the empty one and one whose characters are all replaced,
  and every clock value: the file name is not empty, ends in \<^verbatim>\<open>.pdf\<close>, and before
  that extension holds only characters of \<^verbatim>\<open>[a-z0-9_]\<close>. The hypothesis is a fact of
  the Unicode tables, not of the title: no code unit from 128 on has a letter
  \<^verbatim>\<open>A\<close> to \<^verbatim>\<open>Z\<close> in its lower-case form.
\<close>

theorem createSafeFileName_shape:
  assumes "\<forall>prev c rest. 128 \<le> c \<longrightarrow> (\<forall>u\<in>set (uni prev c rest). \<not> isUpperLetter u)"
  shows "createSafeFileName uni now t \<noteq> []
    \<and> (\<exists>stem. createSafeFileName uni now t = stem @ ascii ''.pdf''
          \<and> (\<forall>u\<in>set stem. isLowerLetter u \<or> isDigit u \<or> u = underscore))"
proof -
  let ?r = "replaceOutsideClass (toLowerCase uni t)"
  let ?stem = "safeTitle uni t @ [underscore] @ decimal now"
  have "\<forall>u\<in>set (toLowerCase uni t). \<not> isUpperLetter u"
    unfolding toLowerCase_def using assms by (rule lowerFrom_no_capital)
  then have r: "\<forall>u\<in>set ?r. isLowerLetter u \<or> isDigit u \<or> u = underscore"
    by (auto simp: replaceOutsideClass_def inClass_def)
  have "set (safeTitle uni t) \<subseteq> set ?r"
    by (simp add: safeTitle_untrimmed set_collapseUnderscores)
  with r have "\<forall>u\<in>set (safeTitle uni t). isLowerLetter u \<or> isDigit u \<or> u = underscore"
    by blast
  then have "\<forall>u\<in>set ?stem. isLowerLetter u \<or> isDigit u \<or> u = underscore"
    by (auto dest: set_decimal)
  moreover have "createSafeFileName uni now t = ?stem @ ascii ''.pdf''"
    by (simp add: createSafeFileName_def)
  ultimately show ?thesis
    by (metis append_is_Nil_conv list.distinct(1) append_Cons)
qed

theorem createSafeFileName_shape_witness:
  "createSafeFileName keepUnit 1700000000000 (ascii ''Tu'' @ [353, 33])
       = ascii ''tu__1700000000000.pdf''
   \<and> createSafeFileName keepUnit 1700000000000 [] = ascii ''_1700000000000.pdf''
   \<and> (\<exists>stem. createSafeFileName keepUnit 1700000000000 (ascii ''Tu'' @ [353, 33])
          = stem @ ascii ''.pdf''
        \<and> (\<forall>u\<in>set stem. isLowerLetter u \<or> isDigit u \<or> u = underscore))"
proof -
  have h: "\<forall>prev c rest. 128 \<le> c \<longrightarrow> (\<forall>u\<in>set (keepUnit prev c rest). \<not> isUpperLetter u)"
    by (simp add: keepUnit_def isUpperLetter_def)
  have "createSafeFileName keepUnit 1700000000000 (ascii ''Tu'' @ [353, 33])
       = ascii ''tu__1700000000000.pdf''"
    by (simp add: createSafeFileName_def naming_defs keepUnit_def decimal.simps)
  moreover have "createSafeFileName keepUnit 1700000000000 [] = ascii ''_1700000000000.pdf''"
    by (simp add: createSafeFileName_def naming_defs decimal.simps)
  ultimately show ?thesis
    using createSafeFileName_shape [OF h, of 1700000000000 "ascii ''Tu'' @ [353, 33]"]
    by blast
qed

section \<open>Properties of record extraction\<close>

lemmas sample_defs =
  sampleService_def freshWorld_def weeklyCard_def weeklyDeals_def fate_def answeringPage_def
  sampleEnv_def springSale_def aboutCard_def springCard_def previewCard_def always_def onlyFirstSucceeds_def laterWorld_def

lemmas run_defs =
  parseCatalogs_def processCatalogs_def downloadPromises_def downloadCatalog_def
  evaluateCatalogs_def catalogOf_def orEmpty_def sample_defs Let_def createSafeFileName_def
  naming_defs decimal.simps keepUnit_def

lemma hasSubstring_nonempty: "hasSubstring h pat \<Longrightarrow> pat \<noteq> [] \<Longrightarrow> h \<noteq> []"
  by (cases h) auto

lemma link_catalogOf: "link (catalogOf item) \<noteq> [] \<longleftrightarrow> hasPdfAnchor item"
proof (cases "find (\<lambda>h. hasSubstring h (ascii ''.pdf'')) (hrefs item)")
  case None
  then have "link (catalogOf item) = []"
    by (simp add: catalogOf_def orEmpty_def)
  moreover from None have "\<not> hasPdfAnchor item"
    by (simp add: hasPdfAnchor_def find_None_iff list_ex_iff)
  ultimately show ?thesis by simp
next
  case (Some h)
  then have "hasSubstring h (ascii ''.pdf'')" "h \<in> set (hrefs item)"
    by (auto simp: find_Some_iff)
  moreover from this have "h \<noteq> []"
    using hasSubstring_nonempty [of h "ascii ''.pdf''"] by (simp add: ascii_def)
  ultimately show ?thesis using Some
    by (auto simp: catalogOf_def orEmpty_def hasPdfAnchor_def list_ex_iff)
qed

lemma evaluateCatalogs_filter_map:
  "evaluateCatalogs catalogItems = map catalogOf (filter hasPdfAnchor catalogItems)"
  by (simp add: evaluateCatalogs_def filter_map o_def link_catalogOf)

lemma describes_catalogOf: "hasPdfAnchor item \<Longrightarrow> describes item (catalogOf item)"
proof -
  assume "hasPdfAnchor item"
  then obtain h where f: "find (\<lambda>h. hasSubstring h (ascii ''.pdf'')) (hrefs item) = Some h"
    by (cases "find (\<lambda>h. hasSubstring h (ascii ''.pdf'')) (hrefs item)")
      (auto simp: hasPdfAnchor_def find_None_iff list_ex_iff)
  then have "firstPdfHref item h"
    unfolding firstPdfHref_def find_Some_iff by blast
  moreover have "link (catalogOf item) = h"
    using f by (simp add: catalogOf_def orEmpty_def)
  ultimately show ?thesis
    by (simp add: describes_def catalogOf_def orEmpty_def split: option.splits)
qed

lemma hasSubstring_iff: "hasSubstring s pat \<longleftrightarrow> (\<exists>pre post. s = pre @ pat @ post)"
proof (induction s)
  case Nil
  then show ?case by auto
next
  case (Cons c s)
  show ?case
  proof
    assume "hasSubstring (c # s) pat"
    then consider "take (length pat) (c # s) = pat" | "hasSubstring s pat" by auto
    then show "\<exists>pre post. c # s = pre @ pat @ post"
    proof cases
      case 1
      then have "c # s = [] @ pat @ drop (length pat) (c # s)"
        by (metis append_Nil append_take_drop_id)
      then show ?thesis by blast
    next
      case 2
      with Cons obtain pre post where "s = pre @ pat @ post" by blast
      then have "c # s = (c # pre) @ pat @ post" by simp
      then show ?thesis by blast
    qed
  next
    assume "\<exists>pre post. c # s = pre @ pat @ post"
    then obtain pre post where e: "c # s = pre @ pat @ post" by blast
    show "hasSubstring (c # s) pat"
    proof (cases pre)
      case Nil
      with e have "take (length pat) (c # s) = pat" by simp
      then show ?thesis by simp
    next
      case (Cons d pre')
      with e have "s = pre' @ pat @ post" by simp
      with Cons.IH show ?thesis by auto
    qed
  qed
qed

lemma endsWith_takeWhile_hasSubstring:
  assumes "endsWith (takeWhile P h) pat"
  shows "hasSubstring h pat"
proof -
  from assms have "\<exists>a. takeWhile P h = a @ pat"
    by (metis endsWith_def append_take_drop_id)
  then obtain a where a: "takeWhile P h = a @ pat" by blast
  have "h = a @ pat @ dropWhile P h"
    using a takeWhile_dropWhile_id [of P h] by simp
  then show ?thesis
    unfolding hasSubstring_iff by blast
qed

text \<open>
  An entry with a resolvable document link in the words of the specification is matched by
  the selector of the code; the converse fails, as the next theorem shows.
\<close>

lemma resolvable_has_anchor: "hasResolvableDocumentLink item \<Longrightarrow> hasPdfAnchor item"
  by (auto simp: hasResolvableDocumentLink_def hasPdfAnchor_def list_ex_iff targetPath_def
      dest: endsWith_takeWhile_hasSubstring)


text \<open>
  Claim C8, as stated: of \<open>N\<close> entries \<open>K\<close> have a resolvable document link (a link
  whose target path ends in the document extension), and the extraction returns exactly
  \<open>K\<close> records. A page whose one entry links to \<^verbatim>\<open>https://x/e.pdf.html\<close> has no
  such entry (\<open>K = 0\<close>), and the extraction returns one record, with that link.
\<close>

theorem evaluateCatalogs_resolvable_link_counterexample:
  "filter hasResolvableDocumentLink [previewCard] = []
   \<and> map link (evaluateCatalogs [previewCard]) = [ascii ''https://x/e.pdf.html'']"
  by (simp add: hasResolvableDocumentLink_def targetPath_def endsWith_def evaluateCatalogs_def
      catalogOf_def orEmpty_def previewCard_def ascii_def)

text \<open>
  Claim C8, amended: of \<open>N\<close> entries \<open>K\<close> have an anchor whose \<^verbatim>\<open>href\<close> contains
  \<^verbatim>\<open>.pdf\<close>. The extraction returns exactly \<open>K\<close> records, one for each such entry
  and in the order of the page: the record at each position is the one that describes the
  entry at that position among the entries with such an anchor (link of the first such
  anchor, trimmed heading, the two dates, no local path). The other entries give none.
\<close>

theorem evaluateCatalogs_pdf_anchors:
  "length (evaluateCatalogs catalogItems) = length (filter hasPdfAnchor catalogItems)
   \<and> list_all2 describes (filter hasPdfAnchor catalogItems) (evaluateCatalogs catalogItems)"
  unfolding evaluateCatalogs_filter_map
  by (simp add: list_all2_map2 list_all2_same describes_catalogOf)

theorem evaluateCatalogs_pdf_anchors_witness:
  "filter hasPdfAnchor [springCard, aboutCard, weeklyCard] = [springCard, weeklyCard]
   \<and> evaluateCatalogs [springCard, aboutCard, weeklyCard] = [springSale, weeklyDeals]
   \<and> list_all2 describes [springCard, weeklyCard] [springSale, weeklyDeals]"
proof -
  have g: "filter hasPdfAnchor [springCard, aboutCard, weeklyCard] = [springCard, weeklyCard]"
    by (simp add: hasPdfAnchor_def sample_defs ascii_def)
  have e: "evaluateCatalogs [springCard, aboutCard, weeklyCard] = [springSale, weeklyDeals]"
    by (simp add: evaluateCatalogs_def catalogOf_def orEmpty_def sample_defs naming_defs)
  from evaluateCatalogs_pdf_anchors [of "[springCard, aboutCard, weeklyCard]"] g e
  show ?thesis
    by simp
qed

section \<open>Properties of the harvest run\<close>

lemma downloadCatalog_keeps:
  assumes "downloadCatalog svc uni e c w = (p, c', w')"
  shows "metadata w' = metadata w \<and> metadataWrites w' = metadataWrites w
     \<and> pagesOpened w' = pagesOpened w \<and> pagesClosed w' = pagesClosed w"
  using assms
  by (auto simp: downloadCatalog_def Let_def split: if_splits reply.splits transfer.splits)

lemma downloadEach_keeps:
  "downloadEach svc env i cs w = (ps, cs', w') \<Longrightarrow>
     length ps = length cs \<and> length cs' = length cs
     \<and> metadata w' = metadata w \<and> metadataWrites w' = metadataWrites w
     \<and> pagesOpened w' = pagesOpened w \<and> pagesClosed w' = pagesClosed w"
proof (induction cs arbitrary: i w ps cs' w')
  case Nil
  then show ?case by simp
next
  case (Cons c cs)
  obtain p c1 w1 where d: "downloadCatalog svc (tables env) (fetchEnv env i) c w = (p, c1, w1)"
    by (metis prod_cases3)
  obtain qs ds w2 where r: "downloadEach svc env (Suc i) cs w1 = (qs, ds, w2)"
    by (metis prod_cases3)
  from Cons.prems d r have e: "ps = p # qs" "cs' = c1 # ds" "w' = w2"
    by simp_all
  from Cons.IH [OF r] downloadCatalog_keeps [OF d] e show ?case
    by simp
qed

lemma promiseAll_Fulfilled:
  "promiseAll ps = Fulfilled v \<longleftrightarrow> (\<forall>q\<in>set ps. q = Fulfilled ())"
  by (induction ps rule: promiseAll.induct) (auto split: promise.splits)

lemma promiseAll_Rejected_mem: "promiseAll ps = Rejected e \<Longrightarrow> Rejected e \<in> set ps"
  by (induction ps rule: promiseAll.induct) (auto split: promise.splits)

lemma promiseAll_Rejected_ex: "Rejected e \<in> set ps \<Longrightarrow> \<exists>e'. promiseAll ps = Rejected e'"
  by (induction ps rule: promiseAll.induct) (auto split: promise.splits)

text \<open>
  Claim C9. With the browser handle \<^verbatim>\<open>null\<close>, \<^verbatim>\<open>parseCatalogs\<close> fails with
  \<^verbatim>\<open>Browser not initialized\<close> and the world is as it was: no page opened, no request
  sent, no file created, the snapshot untouched.
\<close>

theorem parseCatalogs_browser_not_initialized:
  "browser svc = None \<Longrightarrow> parseCatalogs svc env w = (Rejected BrowserNotInitialized, w)"
  by (simp add: parseCatalogs_def)

theorem parseCatalogs_browser_not_initialized_witness:
  "parseCatalogs (sampleService\<lparr>browser := None\<rparr>)
       (sampleEnv answeringPage (always (fate 200 Finishes))) laterWorld
     = (Rejected BrowserNotInitialized, laterWorld)"
  using parseCatalogs_browser_not_initialized
    [of "sampleService\<lparr>browser := None\<rparr>"
        "sampleEnv answeringPage (always (fate 200 Finishes))" laterWorld]
  by (simp add: sampleService_def)

lemma processCatalogs_keeps_pages:
  "processCatalogs svc env cs w = (p, cs', w') \<Longrightarrow>
     pagesOpened w' = pagesOpened w \<and> pagesClosed w' = pagesClosed w"
proof -
  assume a: "processCatalogs svc env cs w = (p, cs', w')"
  obtain ps ds w1 where d: "downloadEach svc env 0 cs w = (ps, ds, w1)"
    by (metis prod_cases3)
  from a d downloadEach_keeps [OF d] show ?thesis
    by (auto simp: processCatalogs_def split: promise.splits if_splits)
qed

text \<open>On the path on which every browser call succeeds the page is opened and closed.\<close>

lemma parseCatalogs_closes_page_after_evaluate:
  assumes "browser svc = Some b" and "newPage (page env) = None" and "goto (page env) = None"
    and "waitForSelector (page env) = None" and "evaluate (page env) = Inr catalogItems"
    and "parseCatalogs svc env w = (p, w')"
  shows "pagesOpened w' = Suc (pagesOpened w) \<and> pagesClosed w' = Suc (pagesClosed w)"
proof -
  let ?w2 = "w\<lparr>pagesOpened := Suc (pagesOpened w), pagesClosed := Suc (pagesClosed w)\<rparr>"
  obtain q ds w3 where r: "processCatalogs svc env (evaluateCatalogs catalogItems) ?w2 = (q, ds, w3)"
    by (metis prod_cases3)
  from assms r have "w' = w3"
    by (auto simp: parseCatalogs_def Let_def split: promise.splits)
  with processCatalogs_keeps_pages [OF r] show ?thesis
    by simp
qed

text \<open>
  Claim C7. The claim: the page is closed on every exit path. The code closes it only
  after \<^verbatim>\<open>goto\<close>, \<^verbatim>\<open>waitForSelector\<close> and \<^verbatim>\<open>evaluate\<close> have all succeeded.
  When navigation fails, or when the marker never appears, the call ends with one page
  opened and none closed.
\<close>

theorem parseCatalogs_page_left_open:
  "parseCatalogs sampleService
       (sampleEnv (answeringPage\<lparr>goto := Some NavigationError\<rparr>) (always (fate 200 Finishes)))
       freshWorld
     = (Rejected NavigationError, freshWorld\<lparr>pagesOpened := 1\<rparr>)
   \<and> parseCatalogs sampleService
       (sampleEnv (answeringPage\<lparr>waitForSelector := Some RenderTimeout\<rparr>)
          (always (fate 200 Finishes)))
       freshWorld
     = (Rejected RenderTimeout, freshWorld\<lparr>pagesOpened := 1\<rparr>)
   \<and> pagesClosed (freshWorld\<lparr>pagesOpened := 1\<rparr>) = 0"
  by (simp add: parseCatalogs_def sample_defs)

text \<open>
  Claim C10. \<^verbatim>\<open>processCatalogs\<close> writes the snapshot only when every download
  promise of the run is fulfilled; when a download promise is rejected it writes nothing,
  and the snapshot persisted before is unchanged.
\<close>

theorem processCatalogs_writes_only_after_all_fulfilled:
  assumes "processCatalogs svc env cs w = (p, cs', w')"
  shows "(metadataWrites w' \<noteq> metadataWrites w \<or> metadata w' \<noteq> metadata w
            \<longrightarrow> (\<forall>q\<in>set (downloadPromises svc env cs w). q = Fulfilled ()))
       \<and> ((\<exists>e. Rejected e \<in> set (downloadPromises svc env cs w))
            \<longrightarrow> metadata w' = metadata w \<and> metadataWrites w' = metadataWrites w)"
proof -
  obtain ps ds w1 where d: "downloadEach svc env 0 cs w = (ps, ds, w1)"
    by (metis prod_cases3)
  have k: "metadata w1 = metadata w" "metadataWrites w1 = metadataWrites w"
    using downloadEach_keeps [OF d] by simp_all
  have dp: "downloadPromises svc env cs w = ps"
    by (simp add: downloadPromises_def d)
  show ?thesis
  proof (cases "promiseAll ps")
    case (Fulfilled v)
    then have "\<forall>q\<in>set ps. q = Fulfilled ()" by (simp add: promiseAll_Fulfilled)
    then show ?thesis unfolding dp by auto
  next
    case (Rejected e)
    with assms d k have "metadata w' = metadata w \<and> metadataWrites w' = metadataWrites w"
      by (auto simp: processCatalogs_def)
    then show ?thesis by simp
  next
    case Pending
    with assms d k have "metadata w' = metadata w \<and> metadataWrites w' = metadataWrites w"
      by (auto simp: processCatalogs_def)
    then show ?thesis by simp
  qed
qed

theorem processCatalogs_writes_only_after_all_fulfilled_witness:
  "downloadPromises sampleService (sampleEnv answeringPage onlyFirstSucceeds)
       [weeklyDeals, springSale] laterWorld
     = [Fulfilled (), Rejected (DownloadFailed (ascii ''Spring Sale!'') 404)]
   \<and> metadata (snd (snd (processCatalogs sampleService (sampleEnv answeringPage onlyFirstSucceeds)
       [weeklyDeals, springSale] laterWorld))) = Some [springSale]
   \<and> metadataWrites (snd (snd (processCatalogs sampleService
       (sampleEnv answeringPage onlyFirstSucceeds) [weeklyDeals, springSale] laterWorld))) = 1"
proof -
  let ?run = "processCatalogs sampleService (sampleEnv answeringPage onlyFirstSucceeds)
       [weeklyDeals, springSale] laterWorld"
  have r: "?run = (fst ?run, fst (snd ?run), snd (snd ?run))"
    by simp
  have ps: "downloadPromises sampleService (sampleEnv answeringPage onlyFirstSucceeds)
       [weeklyDeals, springSale] laterWorld
     = [Fulfilled (), Rejected (DownloadFailed (ascii ''Spring Sale!'') 404)]"
    by (simp add: run_defs)
  have "metadata laterWorld = Some [springSale]" "metadataWrites laterWorld = 1"
    by (simp_all add: laterWorld_def freshWorld_def)
  with processCatalogs_writes_only_after_all_fulfilled [OF r] ps show ?thesis
    by simp
qed

text \<open>
  Claim C3, as stated: after a response whose status is not 200 the file at the target path
  is removed, and the failure does not pass the caller of the fetch. For a response 404
  the promise of \<^verbatim>\<open>downloadCatalog\<close> is rejected, the file that
  \<^verbatim>\<open>createWriteStream\<close> made is still there, and \<^verbatim>\<open>processCatalogs\<close>, the
  caller, is rejected with the same error.
\<close>

theorem downloadCatalog_non200_counterexample:
  "downloadCatalog sampleService keepUnit (fate 404 Finishes) weeklyDeals freshWorld
     = (Rejected (DownloadFailed (ascii ''Weekly Deals'') 404), weeklyDeals,
        freshWorld\<lparr>files := {ascii ''/srv/data/catalogs/weekly_deals_1700000000000.pdf''},
                   requests := [ascii ''https://x/a.pdf'']\<rparr>)
   \<and> fst (processCatalogs sampleService (sampleEnv answeringPage (always (fate 404 Finishes)))
          [weeklyDeals] freshWorld)
     = Rejected (DownloadFailed (ascii ''Weekly Deals'') 404)"
  by (simp add: run_defs)

text \<open>
  Claim C3, amended: a fetch whose response carries a status other than 200 is a failure:
  its promise is rejected with the error that names the title and the status, and the
  record is returned unchanged, \<^verbatim>\<open>localPath\<close> not set by the fetch.
\<close>

theorem downloadCatalog_non200_rejects:
  assumes "link c \<noteq> []" and "catalogsDir w \<or> \<not> mkdirFails e"
    and "reply e = Response statusCode tr" and "statusCode \<noteq> 200"
  shows "\<exists>w'. downloadCatalog svc uni e c w
           = (Rejected (DownloadFailed (title c) statusCode), c, w')"
  using assms by (auto simp: downloadCatalog_def Let_def)

theorem downloadCatalog_non200_rejects_witness:
  "link springSale = ascii ''https://x/b.pdf''
   \<and> reply (fate 500 Stalls) = Response 500 Stalls
   \<and> (\<exists>w'. downloadCatalog sampleService keepUnit (fate 500 Stalls) springSale
               (freshWorld\<lparr>catalogsDir := False\<rparr>)
           = (Rejected (DownloadFailed (ascii ''Spring Sale!'') 500), springSale, w'))"
proof -
  have 1: "link springSale \<noteq> []"
    by (simp add: springSale_def ascii_def)
  have 2: "catalogsDir (freshWorld\<lparr>catalogsDir := False\<rparr>) \<or> \<not> mkdirFails (fate 500 Stalls)"
    by (simp add: fate_def)
  have 3: "reply (fate 500 Stalls) = Response 500 Stalls"
    by (simp add: fate_def)
  have 4: "(500::nat) \<noteq> 200"
    by simp
  have "title springSale = ascii ''Spring Sale!''" "link springSale = ascii ''https://x/b.pdf''"
    by (simp_all add: springSale_def)
  with 3 downloadCatalog_non200_rejects [OF 1 2 3 4, of sampleService keepUnit] show ?thesis
    by simp
qed

lemma downloadCatalog_refused:
  assumes "link c \<noteq> []" and "nonOk (reply e)"
    and "downloadCatalog svc uni e c w = (p, c', w')"
  shows "\<exists>err. p = Rejected err"
  using assms
  by (auto simp: downloadCatalog_def Let_def split: if_splits reply.splits transfer.splits)

lemma downloadEach_refused:
  assumes "\<forall>c\<in>set cs. link c \<noteq> []"
    and "\<exists>k<length cs. nonOk (reply (fetchEnv env (i + k)))"
    and "downloadEach svc env i cs w = (ps, cs', w')"
  shows "\<exists>err. Rejected err \<in> set ps"
  using assms
proof (induction cs arbitrary: i w ps cs' w')
  case Nil
  then show ?case by simp
next
  case (Cons c cs)
  obtain p c1 w1 where d: "downloadCatalog svc (tables env) (fetchEnv env i) c w = (p, c1, w1)"
    by (metis prod_cases3)
  obtain qs ds w2 where r: "downloadEach svc env (Suc i) cs w1 = (qs, ds, w2)"
    by (metis prod_cases3)
  from Cons.prems(3) d r have e: "ps = p # qs"
    by simp
  have lc: "link c \<noteq> []" and ls: "\<forall>c\<in>set cs. link c \<noteq> []"
    using Cons.prems(1) by simp_all
  from Cons.prems(2) have "nonOk (reply (fetchEnv env i))
      \<or> (\<exists>k<length cs. nonOk (reply (fetchEnv env (Suc i + k))))"
    by (simp add: Ex_less_Suc2)
  then show ?case
  proof
    assume "nonOk (reply (fetchEnv env i))"
    with downloadCatalog_refused [OF lc _ d] e show ?thesis by auto
  next
    assume "\<exists>k<length cs. nonOk (reply (fetchEnv env (Suc i + k)))"
    with Cons.IH [OF ls _ r] e show ?thesis by auto
  qed
qed

lemma downloadCatalog_succeeds:
  assumes "link c \<noteq> []" and "catalogsDir w \<or> \<not> mkdirFails e" and "succeeds (reply e)"
    and "downloadCatalog svc uni e c w = (p, c', w')"
  shows "p = Fulfilled () \<and> annotated c' c \<and> catalogsDir w'"
  using assms
  by (auto simp: downloadCatalog_def Let_def succeeds_def annotated_def split: if_splits)

lemma downloadEach_succeed:
  assumes "\<forall>c\<in>set cs. link c \<noteq> []"
    and "catalogsDir w \<or> cs = [] \<or> \<not> mkdirFails (fetchEnv env i)"
    and "\<forall>k<length cs. succeeds (reply (fetchEnv env (i + k)))"
    and "downloadEach svc env i cs w = (ps, cs', w')"
  shows "(\<forall>q\<in>set ps. q = Fulfilled ()) \<and> list_all2 annotated cs' cs"
  using assms
proof (induction cs arbitrary: i w ps cs' w')
  case Nil
  then show ?case by simp
next
  case (Cons c cs)
  obtain p c1 w1 where d: "downloadCatalog svc (tables env) (fetchEnv env i) c w = (p, c1, w1)"
    by (metis prod_cases3)
  obtain qs ds w2 where r: "downloadEach svc env (Suc i) cs w1 = (qs, ds, w2)"
    by (metis prod_cases3)
  from Cons.prems(4) d r have e: "ps = p # qs" "cs' = c1 # ds"
    by simp_all
  have lc: "link c \<noteq> []" and ls: "\<forall>c\<in>set cs. link c \<noteq> []"
    using Cons.prems(1) by simp_all
  have dir: "catalogsDir w \<or> \<not> mkdirFails (fetchEnv env i)"
    using Cons.prems(2) by simp
  have here: "succeeds (reply (fetchEnv env i))"
    using Cons.prems(3) by force
  have rest: "\<forall>k<length cs. succeeds (reply (fetchEnv env (Suc i + k)))"
    using Cons.prems(3) by force
  note a = downloadCatalog_succeeds [OF lc dir here d]
  then have "catalogsDir w1 \<or> cs = [] \<or> \<not> mkdirFails (fetchEnv env (Suc i))"
    by simp
  from Cons.IH [OF ls this rest r] a e show ?case
    by simp
qed

lemma failedCount_zero:
  "failedCount env m = 0 \<longleftrightarrow> (\<forall>k<m. \<not> nonOk (reply (fetchEnv env k)))"
  by (auto simp: failedCount_def filter_empty_conv)

lemma failedCount_pos:
  "0 < failedCount env m \<longleftrightarrow> (\<exists>k<m. nonOk (reply (fetchEnv env k)))"
  using failedCount_zero [of env m] by auto

text \<open>
  Claim C2, as stated: of \<open>M\<close> records \<open>F\<close> are refused with a status other than 200 and
  the others succeed; then the snapshot holds all \<open>M\<close> records and no file is left for a
  refused one. With two records of which the second is refused (\<open>M = 2\<close>, \<open>F = 1\<close>) the
  run is rejected, no snapshot is written, and the file of the refused record exists.
\<close>

theorem processCatalogs_refused_download_counterexample:
  "failedCount (sampleEnv answeringPage onlyFirstSucceeds) 2 = 1
   \<and> fst (processCatalogs sampleService (sampleEnv answeringPage onlyFirstSucceeds)
          [weeklyDeals, springSale] freshWorld)
     = Rejected (DownloadFailed (ascii ''Spring Sale!'') 404)
   \<and> metadata (snd (snd (processCatalogs sampleService
          (sampleEnv answeringPage onlyFirstSucceeds) [weeklyDeals, springSale] freshWorld)))
     = None
   \<and> ascii ''/srv/data/catalogs/spring_sale__1700000000000.pdf''
       \<in> files (snd (snd (processCatalogs sampleService
            (sampleEnv answeringPage onlyFirstSucceeds) [weeklyDeals, springSale] freshWorld)))"
proof -
  have "failedCount (sampleEnv answeringPage onlyFirstSucceeds) 2 = 1"
    by (simp add: failedCount_def sample_defs upt_rec [of 0] upt_rec [of 1])
  moreover have "processCatalogs sampleService (sampleEnv answeringPage onlyFirstSucceeds)
          [weeklyDeals, springSale] freshWorld
     = (Rejected (DownloadFailed (ascii ''Spring Sale!'') 404),
        [weeklyDeals\<lparr>localPath :=
           Some (ascii ''/srv/data/catalogs/weekly_deals_1700000000000.pdf'')\<rparr>,
         springSale],
        freshWorld\<lparr>files := {ascii ''/srv/data/catalogs/spring_sale__1700000000000.pdf'',
                     ascii ''/srv/data/catalogs/weekly_deals_1700000000000.pdf''},
          requests := [ascii ''https://x/a.pdf'', ascii ''https://x/b.pdf'']\<rparr>)"
    by (simp add: run_defs)
  ultimately show ?thesis
    by (simp add: freshWorld_def)
qed

text \<open>
  Claim C2, amended: of \<open>M\<close> extracted records \<open>F\<close> are refused with a status other than
  200 and the others succeed. If \<open>F = 0\<close>, the catalogs directory is there or
  \<^verbatim>\<open>mkdirSync\<close> makes it for the first record, and the write succeeds, then the run is
  fulfilled and the snapshot holds all \<open>M\<close> records, each with \<^verbatim>\<open>localPath\<close> set. If
  \<open>F > 0\<close> the run is rejected and writes no snapshot: an earlier one stays as it was.
\<close>

theorem processCatalogs_snapshot_by_failedCount:
  assumes "\<forall>c\<in>set cs. link c \<noteq> []"
    and "\<forall>k<length cs. nonOk (reply (fetchEnv env k)) \<or> succeeds (reply (fetchEnv env k))"
    and "processCatalogs svc env cs w = (p, cs', w')"
  shows "(failedCount env (length cs) = 0
            \<and> (catalogsDir w \<or> cs = [] \<or> \<not> mkdirFails (fetchEnv env 0))
            \<and> \<not> writeFails env
            \<longrightarrow> p = Fulfilled () \<and> metadata w' = Some cs' \<and> list_all2 annotated cs' cs)
       \<and> (0 < failedCount env (length cs)
            \<longrightarrow> (\<exists>err. p = Rejected err) \<and> metadata w' = metadata w
                \<and> metadataWrites w' = metadataWrites w)"
proof -
  obtain ps ds w1 where d: "downloadEach svc env 0 cs w = (ps, ds, w1)"
    by (metis prod_cases3)
  have k: "metadata w1 = metadata w" "metadataWrites w1 = metadataWrites w"
    using downloadEach_keeps [OF d] by simp_all
  show ?thesis
  proof (rule conjI; rule impI)
    assume z: "failedCount env (length cs) = 0
        \<and> (catalogsDir w \<or> cs = [] \<or> \<not> mkdirFails (fetchEnv env 0))
        \<and> \<not> writeFails env"
    then have s: "\<forall>k<length cs. succeeds (reply (fetchEnv env (0 + k)))"
      using assms(2) by (simp add: failedCount_zero)
    from z have dir: "catalogsDir w \<or> cs = [] \<or> \<not> mkdirFails (fetchEnv env 0)"
      by simp
    have "(\<forall>q\<in>set ps. q = Fulfilled ()) \<and> list_all2 annotated ds cs"
      using assms(1) dir s d by (rule downloadEach_succeed)
    moreover from this have "promiseAll ps = Fulfilled ()"
      by (simp add: promiseAll_Fulfilled)
    moreover from z have "\<not> writeFails env"
      by simp
    ultimately show "p = Fulfilled () \<and> metadata w' = Some cs' \<and> list_all2 annotated cs' cs"
      using assms(3) d by (auto simp: processCatalogs_def)
  next
    assume "0 < failedCount env (length cs)"
    then have "\<exists>k<length cs. nonOk (reply (fetchEnv env (0 + k)))"
      by (simp add: failedCount_pos)
    with assms(1) have "\<exists>err. Rejected err \<in> set ps"
      using d by (rule downloadEach_refused)
    then obtain err where "Rejected err \<in> set ps"
      by blast
    then obtain err' where "promiseAll ps = Rejected err'"
      using promiseAll_Rejected_ex by blast
    with assms(3) d have "p = Rejected err'" "w' = w1"
      by (simp_all add: processCatalogs_def)
    with k show "(\<exists>err. p = Rejected err) \<and> metadata w' = metadata w
                \<and> metadataWrites w' = metadataWrites w"
      by simp
  qed
qed

theorem processCatalogs_snapshot_by_failedCount_witness:
  "catalogsDir (laterWorld\<lparr>catalogsDir := False\<rparr>) = False
   \<and> failedCount (sampleEnv answeringPage (always (fate 200 Finishes))) 2 = 0
   \<and> fst (processCatalogs sampleService (sampleEnv answeringPage (always (fate 200 Finishes)))
          [weeklyDeals, springSale] (laterWorld\<lparr>catalogsDir := False\<rparr>)) = Fulfilled ()
   \<and> metadata (snd (snd (processCatalogs sampleService
          (sampleEnv answeringPage (always (fate 200 Finishes)))
          [weeklyDeals, springSale] (laterWorld\<lparr>catalogsDir := False\<rparr>))))
     = Some
        [weeklyDeals\<lparr>localPath :=
           Some (ascii ''/srv/data/catalogs/weekly_deals_1700000000000.pdf'')\<rparr>,
         springSale\<lparr>localPath :=
           Some (ascii ''/srv/data/catalogs/spring_sale__1700000000000.pdf'')\<rparr>]"
proof -
  let ?env = "sampleEnv answeringPage (always (fate 200 Finishes))"
  let ?w = "laterWorld\<lparr>catalogsDir := False\<rparr>"
  let ?run = "processCatalogs sampleService ?env [weeklyDeals, springSale] ?w"
  have 1: "\<forall>c\<in>set [weeklyDeals, springSale]. link c \<noteq> []"
    by (simp add: weeklyDeals_def springSale_def ascii_def)
  have 2: "\<forall>k<length [weeklyDeals, springSale].
      nonOk (reply (fetchEnv ?env k)) \<or> succeeds (reply (fetchEnv ?env k))"
    by (simp add: sample_defs succeeds_def)
  have 3: "?run = (fst ?run, fst (snd ?run), snd (snd ?run))"
    by simp
  have z: "failedCount ?env (length [weeklyDeals, springSale]) = 0
      \<and> (catalogsDir ?w \<or> [weeklyDeals, springSale] = [] \<or> \<not> mkdirFails (fetchEnv ?env 0))
      \<and> \<not> writeFails ?env"
    by (simp add: failedCount_def sample_defs)
  have n: "failedCount ?env 2 = 0"
    by (simp add: failedCount_def sample_defs)
  have c: "fst (snd ?run)
     = [weeklyDeals\<lparr>localPath :=
           Some (ascii ''/srv/data/catalogs/weekly_deals_1700000000000.pdf'')\<rparr>,
         springSale\<lparr>localPath :=
           Some (ascii ''/srv/data/catalogs/spring_sale__1700000000000.pdf'')\<rparr>]"
    by (simp add: run_defs)
  from processCatalogs_snapshot_by_failedCount [OF 1 2 3] z
  have "fst ?run = Fulfilled () \<and> metadata (snd (snd ?run)) = Some (fst (snd ?run))"
    by blast
  with n c show ?thesis
    by simp
qed


text \<open>
  Claim C1, as stated: no failure of a single download makes the run fail; the run still
  writes the snapshot and returns the full list. With one record whose download is
  answered 404 the run is rejected with that download's error and no snapshot is written.
\<close>

theorem parseCatalogs_one_download_fails_counterexample:
  "parseCatalogs sampleService (sampleEnv answeringPage (always (fate 404 Finishes))) freshWorld
     = (Rejected (DownloadFailed (ascii ''Weekly Deals'') 404),
        freshWorld\<lparr>pagesOpened := 1, pagesClosed := 1,
          files := {ascii ''/srv/data/catalogs/weekly_deals_1700000000000.pdf''},
          requests := [ascii ''https://x/a.pdf'']\<rparr>)
   \<and> metadata freshWorld = None \<and> metadataWrites freshWorld = 0"
  by (simp add: run_defs)

text \<open>
  Claim C1, amended: the run makes one download promise for each record and waits on all
  of them together. It is fulfilled exactly when every download is fulfilled (and the
  write succeeds), and then the snapshot holds the full list. When a download is
  rejected the run is rejected with the error of a rejected download, and no snapshot
  is written.
\<close>

theorem processCatalogs_all_or_nothing:
  assumes "processCatalogs svc env cs w = (p, cs', w')"
  shows "length (downloadPromises svc env cs w) = length cs
       \<and> (p = Fulfilled () \<longleftrightarrow>
            (\<forall>q\<in>set (downloadPromises svc env cs w). q = Fulfilled ()) \<and> \<not> writeFails env)
       \<and> (p = Fulfilled () \<longrightarrow> metadata w' = Some cs' \<and> length cs' = length cs)
       \<and> ((\<exists>e. Rejected e \<in> set (downloadPromises svc env cs w))
            \<longrightarrow> (\<exists>e. p = Rejected e \<and> Rejected e \<in> set (downloadPromises svc env cs w))
                \<and> metadata w' = metadata w \<and> metadataWrites w' = metadataWrites w)"
proof -
  obtain ps ds w1 where d: "downloadEach svc env 0 cs w = (ps, ds, w1)"
    by (metis prod_cases3)
  note k = downloadEach_keeps [OF d]
  have dp: "downloadPromises svc env cs w = ps"
    by (simp add: downloadPromises_def d)
  show ?thesis
  proof (cases "promiseAll ps")
    case (Fulfilled v)
    then have f: "\<forall>q\<in>set ps. q = Fulfilled ()" by (simp add: promiseAll_Fulfilled)
    then have "\<not> (\<exists>e. Rejected e \<in> set ps)" by auto
    with Fulfilled f assms d k show ?thesis
      unfolding dp by (auto simp: processCatalogs_def split: if_splits)
  next
    case (Rejected e)
    then have m: "Rejected e \<in> set ps" by (rule promiseAll_Rejected_mem)
    then have n: "\<not> (\<forall>q\<in>set ps. q = Fulfilled ())" by auto
    from Rejected assms d have r: "p = Rejected e" "w' = w1"
      by (simp_all add: processCatalogs_def)
    have "\<exists>e. p = Rejected e \<and> Rejected e \<in> set ps"
      using r m by blast
    with n r k show ?thesis
      unfolding dp by simp
  next
    case Pending
    then have "\<not> (\<forall>q\<in>set ps. q = Fulfilled ())"
      using promiseAll_Fulfilled [of ps "()"] by auto
    moreover have "\<not> (\<exists>e. Rejected e \<in> set ps)"
      using Pending promiseAll_Rejected_ex by fastforce
    ultimately show ?thesis
      using Pending assms d k unfolding dp by (auto simp: processCatalogs_def)
  qed
qed

theorem processCatalogs_all_or_nothing_witness:
  "processCatalogs sampleService (sampleEnv answeringPage (always (fate 200 Finishes)))
       [weeklyDeals] freshWorld
     = (Fulfilled (),
        [weeklyDeals\<lparr>localPath :=
           Some (ascii ''/srv/data/catalogs/weekly_deals_1700000000000.pdf'')\<rparr>],
        freshWorld\<lparr>files := {ascii ''/srv/data/catalogs/weekly_deals_1700000000000.pdf''},
          requests := [ascii ''https://x/a.pdf''],
          metadata := Some [weeklyDeals\<lparr>localPath :=
            Some (ascii ''/srv/data/catalogs/weekly_deals_1700000000000.pdf'')\<rparr>],
          metadataWrites := 1\<rparr>)
   \<and> length (downloadPromises sampleService
        (sampleEnv answeringPage (always (fate 200 Finishes))) [weeklyDeals] freshWorld) = 1"
proof -
  have r: "processCatalogs sampleService (sampleEnv answeringPage (always (fate 200 Finishes)))
       [weeklyDeals] freshWorld
     = (Fulfilled (),
        [weeklyDeals\<lparr>localPath :=
           Some (ascii ''/srv/data/catalogs/weekly_deals_1700000000000.pdf'')\<rparr>],
        freshWorld\<lparr>files := {ascii ''/srv/data/catalogs/weekly_deals_1700000000000.pdf''},
          requests := [ascii ''https://x/a.pdf''],
          metadata := Some [weeklyDeals\<lparr>localPath :=
            Some (ascii ''/srv/data/catalogs/weekly_deals_1700000000000.pdf'')\<rparr>],
          metadataWrites := 1\<rparr>)"
    by (simp add: run_defs)
  from processCatalogs_all_or_nothing [OF r] r show ?thesis
    by simp
qed

end
